theory Spec2Isabelle
  imports Complex_Main
begin

section \<open>Wire values\<close>

text \<open>
  Both programs exchange JSON text frames. A frame is modelled by the value that
  \<^verbatim>\<open>JSON.parse\<close> builds from it (\<open>None\<close> when \<^verbatim>\<open>JSON.parse\<close> throws), and a
  frame handed to \<^verbatim>\<open>send\<close> by the value that \<^verbatim>\<open>JSON.stringify\<close> was applied to.
  An object is the list of its own properties in property order, each key once, as
  \<^verbatim>\<open>JSON.parse\<close> builds it. Numbers are taken by
  their numeric value (what a double does to a literal, rounding, overflow or a negative
  zero, is left out); a string is the sequence of its code units.
\<close>

datatype json =
    JNull
  | JBool bool
  | JNum real
  | JStr string
  | JArr "json list"
  | JObj "(string \<times> json) list"

datatype error = TypeError

text \<open>
  A value held in a JavaScript variable: \<^verbatim>\<open>undefined\<close>, a primitive, or a reference to
  an object or array. Two references are \<^verbatim>\<open>===\<close> (and the same \<^verbatim>\<open>Map\<close> key) only when
  they are the same allocation, which the first component of \<open>Ref\<close> identifies.
\<close>

datatype jsval = Undefined | Val json | Ref nat json

datatype ready_state = CONNECTING | OPEN | CLOSING | CLOSED

text \<open>
  \<^verbatim>\<open>msg.type\<close> and \<^verbatim>\<open>msg.room\<close>: reading a property of \<^verbatim>\<open>null\<close> throws a TypeError; a
  primitive or an array has no property of either name, and an object has it when it is
  among its own properties.
\<close>

fun get_prop :: "json \<Rightarrow> string \<Rightarrow> error + json option" where
  "get_prop JNull k = Inl TypeError"
| "get_prop (JObj kvs) k = Inr (map_of kvs k)"
| "get_prop (JBool b) k = Inr None"
| "get_prop (JNum n) k = Inr None"
| "get_prop (JStr s) k = Inr None"
| "get_prop (JArr xs) k = Inr None"

text \<open>The value a freshly parsed property value has as a JavaScript value.\<close>

fun to_jsval :: "nat \<Rightarrow> json option \<Rightarrow> jsval" where
  "to_jsval a None = Undefined"
| "to_jsval a (Some (JArr xs)) = Ref a (JArr xs)"
| "to_jsval a (Some (JObj kvs)) = Ref a (JObj kvs)"
| "to_jsval a (Some v) = Val v"

text \<open>\<^verbatim>\<open>!ws.room\<close> is the negation of this.\<close>

fun truthy :: "jsval \<Rightarrow> bool" where
  "truthy Undefined = False"
| "truthy (Val JNull) = False"
| "truthy (Val (JBool b)) = b"
| "truthy (Val (JNum n)) = (n \<noteq> 0)"
| "truthy (Val (JStr s)) = (s \<noteq> [])"
| "truthy (Val (JArr xs)) = True"
| "truthy (Val (JObj kvs)) = True"
| "truthy (Ref a v) = True"

text \<open>What \<^verbatim>\<open>JSON.stringify\<close> writes for a property value; \<open>None\<close>: the property is left out.\<close>

fun content :: "jsval \<Rightarrow> json option" where
  "content Undefined = None"
| "content (Val v) = Some v"
| "content (Ref a v) = Some v"

subsection \<open>Object spread\<close>

definition digit_char :: "nat \<Rightarrow> char" where
  "digit_char d = char_of (48 + d)"

function string_of_nat :: "nat \<Rightarrow> string" where
  "string_of_nat n =
     (if n < 10 then [digit_char n] else string_of_nat (n div 10) @ [digit_char (n mod 10)])"
  by pat_completeness auto
termination
  by (relation "measure id") auto

declare string_of_nat.simps [simp del]

text \<open>
  \<^verbatim>\<open>{...msg}\<close>: the own enumerable properties of the value. An object gives its
  properties, an array and a string their elements under the index keys, every other
  value nothing.
\<close>

fun spread :: "json \<Rightarrow> (string \<times> json) list" where
  "spread (JObj kvs) = kvs"
| "spread (JArr xs) = map (\<lambda>i. (string_of_nat i, xs ! i)) [0..<length xs]"
| "spread (JStr s) = map (\<lambda>i. (string_of_nat i, JStr [s ! i])) [0..<length s]"
| "spread JNull = []"
| "spread (JBool b) = []"
| "spread (JNum n) = []"

text \<open>
  \<^verbatim>\<open>{...msg, room: v}\<close> followed by \<^verbatim>\<open>JSON.stringify\<close>: a property already there keeps
  its place and takes the new value, a new one goes last; a property whose value is
  \<^verbatim>\<open>undefined\<close> is not written.
\<close>

definition set_prop :: "string \<Rightarrow> json option \<Rightarrow> (string \<times> json) list \<Rightarrow> (string \<times> json) list" where
  "set_prop k v kvs =
     (case v of
        None \<Rightarrow> filter (\<lambda>kv. fst kv \<noteq> k) kvs
      | Some w \<Rightarrow>
          if k \<in> fst ` set kvs
          then map (\<lambda>kv. if fst kv = k then (k, w) else kv) kvs
          else kvs @ [(k, w)])"

definition stamp :: "json \<Rightarrow> jsval \<Rightarrow> json" where
  "stamp msg r = JObj (set_prop ''room'' (content r) (spread msg))"

section \<open>The server\<close>

text \<open>
  One entry of \<^verbatim>\<open>wss.clients\<close>: the socket's \<^verbatim>\<open>readyState\<close>, the \<^verbatim>\<open>room\<close> property the
  handler hangs on it, and the arguments of the calls of its \<^verbatim>\<open>send\<close>, in call order.
  A client is identified by its position in the list.
\<close>

record client =
  readyState :: ready_state
  room :: jsval
  sent :: "json list"

record server =
  roomHistory :: "jsval \<rightharpoonup> json list"
  clients :: "client list"
  allocs :: nat

definition init :: server where
  "init = \<lparr>roomHistory = Map.empty, clients = [], allocs = 0\<rparr>"

text \<open>The callback of \<^verbatim>\<open>wss.clients.forEach\<close> in \<^verbatim>\<open>broadcast\<close>, at the client of position \<open>j\<close>.\<close>

definition deliver :: "jsval \<Rightarrow> json \<Rightarrow> nat \<Rightarrow> nat \<Rightarrow> client \<Rightarrow> client" where
  "deliver r data except j c =
     (if readyState c \<noteq> OPEN then c
      else if room c \<noteq> r then c
      else if j = except then c
      else c\<lparr>sent := sent c @ [data]\<rparr>)"

definition broadcast :: "jsval \<Rightarrow> json \<Rightarrow> nat \<Rightarrow> client list \<Rightarrow> client list" where
  "broadcast r data except cs = map (\<lambda>j. deliver r data except j (cs ! j)) [0..<length cs]"

definition history_msg :: "jsval \<Rightarrow> json list option \<Rightarrow> json" where
  "history_msg r evs =
     JObj ([(''type'', JStr ''history'')]
           @ (case content r of None \<Rightarrow> [] | Some v \<Rightarrow> [(''room'', v)])
           @ (case evs of None \<Rightarrow> [] | Some es \<Rightarrow> [(''events'', JArr es)]))"

text \<open>
  The \<^verbatim>\<open>message\<close> handler of the connection at position \<open>i\<close>. \<open>Inl\<close> is an exception
  leaving the handler: nothing in the file catches it.
\<close>

definition on_join :: "nat \<Rightarrow> json \<Rightarrow> server \<Rightarrow> error + server" where
  "on_join i msg s =
     (case get_prop msg ''room'' of
        Inl e \<Rightarrow> Inl e
      | Inr v \<Rightarrow>
          let r = to_jsval (allocs s) v;
              h = (if roomHistory s r = None then (roomHistory s)(r \<mapsto> []) else roomHistory s);
              c = clients s ! i
          in Inr (s\<lparr>roomHistory := h,
                    clients := (clients s)[i := c\<lparr>room := r, sent := sent c @ [history_msg r (h r)]\<rparr>],
                    allocs := Suc (allocs s)\<rparr>))"

definition on_event :: "nat \<Rightarrow> json \<Rightarrow> server \<Rightarrow> error + server" where
  "on_event i msg s =
     (let r = room (clients s ! i) in
      if \<not> truthy r then Inr s
      else
        let data = stamp msg r in
        case roomHistory s r of
          None \<Rightarrow> Inl TypeError
        | Some evs \<Rightarrow>
            Inr (s\<lparr>roomHistory := (roomHistory s)(r \<mapsto> evs @ [data]),
                   clients := broadcast r data i (clients s)\<rparr>))"

definition on_message :: "nat \<Rightarrow> json option \<Rightarrow> server \<Rightarrow> error + server" where
  "on_message i raw s =
     (case raw of
        None \<Rightarrow> Inr s
      | Some msg \<Rightarrow>
          (case get_prop msg ''type'' of
             Inl e \<Rightarrow> Inl e
           | Inr t \<Rightarrow>
               if t = Some (JStr ''join'') then on_join i msg s else on_event i msg s))"

text \<open>The \<^verbatim>\<open>connection\<close> handler: the library has put the open socket into \<^verbatim>\<open>wss.clients\<close>.\<close>

definition on_connection :: "server \<Rightarrow> server" where
  "on_connection s = s\<lparr>clients := clients s @ [\<lparr>readyState = OPEN, room = Val JNull, sent = []\<rparr>]\<rparr>"

text \<open>
  What reaches the server: a new connection, a frame on connection \<open>i\<close>, or the transport
  moving connection \<open>i\<close> to another state (a closed socket left in the list is passed
  over by \<open>broadcast\<close> as one taken out of \<^verbatim>\<open>wss.clients\<close> is).
\<close>

datatype input = Connection | Message nat "json option" | Transport nat ready_state

definition step :: "input \<Rightarrow> server \<Rightarrow> error + server" where
  "step x s =
     (case x of
        Connection \<Rightarrow> Inr (on_connection s)
      | Message i raw \<Rightarrow> if i < length (clients s) then on_message i raw s else Inr s
      | Transport i st \<Rightarrow>
          if i < length (clients s)
          then Inr (s\<lparr>clients := (clients s)[i := (clients s ! i)\<lparr>readyState := st\<rparr>]\<rparr>)
          else Inr s)"

fun run :: "input list \<Rightarrow> server \<Rightarrow> error + server" where
  "run [] s = Inr s"
| "run (x # xs) s = (case step x s of Inl e \<Rightarrow> Inl e | Inr s' \<Rightarrow> run xs s')"

section \<open>The client\<close>

type_synonym point = "real \<times> real"

text \<open>
  The union \<^verbatim>\<open>AnyMsg\<close>: \<open>Begin room userId color width p\<close>, \<open>Move room userId pts\<close>,
  \<open>End room userId\<close>, \<open>Join room userId\<close> and \<open>History room events\<close>.
\<close>

datatype msg =
    Begin string string string real point
  | Move string string "point list"
  | End string string
  | Join string string
  | History string "msg list"

text \<open>The calls made on the 2D context, in call order.\<close>

datatype canvas_op =
    StrokeStyle string
  | LineWidth real
  | BeginPath
  | MoveTo real real
  | LineTo real real
  | Stroke

datatype dom_call = SetPointerCapture nat | ReleasePointerCapture nat

record StrokeState =
  drawing :: bool
  last_pt :: "point option"

text \<open>The browser's socket: its \<^verbatim>\<open>readyState\<close> and the frames handed to \<^verbatim>\<open>send\<close>.\<close>

record socket =
  ws_readyState :: ready_state
  ws_sent :: "msg list"

text \<open>
  The refs of the component (\<open>None\<close> is \<^verbatim>\<open>null\<close>) and the memoised \<^verbatim>\<open>userId\<close>. A pending
  flush timer holds the \<^verbatim>\<open>room\<close> its callback closed over. The state variables
  \<^verbatim>\<open>room\<close>, \<^verbatim>\<open>color\<close> and \<^verbatim>\<open>width\<close> are constants of the render a handler belongs to, and
  are passed to it (as \<open>rm\<close>, \<open>color\<close> and \<open>width\<close>).
\<close>

record canvas =
  canvasRef :: "dom_call list option"
  ctxRef :: "canvas_op list option"
  wsRef :: "socket option"
  remoteStrokeRef :: "string \<rightharpoonup> StrokeState"
  localDrawingRef :: bool
  localLastRef :: "point option"
  moveBufferRef :: "point list"
  flushTimerRef :: "string option"
  userId :: string

text \<open>
  A pointer event, together with the left and top of the canvas's bounding rectangle at
  the time of the event.
\<close>

record pointer_event =
  clientX :: real
  clientY :: real
  rect_left :: real
  rect_top :: real
  pointerId :: nat

definition getCanvasPoint :: "pointer_event \<Rightarrow> point" where
  "getCanvasPoint e = (clientX e - rect_left e, clientY e - rect_top e)"

subsection \<open>Remote stroke reconstruction\<close>

definition applyBegin :: "canvas_op list \<Rightarrow> string \<Rightarrow> real \<Rightarrow> point \<Rightarrow> canvas_op list" where
  "applyBegin ctx color width p =
     ctx @ [StrokeStyle color, LineWidth width, BeginPath, MoveTo (fst p) (snd p)]"

text \<open>
  \<^verbatim>\<open>pts[0][0]\<close> throws when \<^verbatim>\<open>pts[0]\<close> is \<^verbatim>\<open>undefined\<close>; the loop of the first branch
  starts at index 1.
\<close>

definition applyMove :: "canvas_op list \<Rightarrow> point option \<Rightarrow> point list \<Rightarrow> error + canvas_op list" where
  "applyMove ctx from pts =
     (if length pts = 0 then Inr ctx
      else case from of
        None \<Rightarrow>
          (case pts of
             [] \<Rightarrow> Inl TypeError
           | p0 # rest \<Rightarrow>
               Inr (ctx @ [BeginPath, MoveTo (fst p0) (snd p0)]
                        @ map (\<lambda>p. LineTo (fst p) (snd p)) rest @ [Stroke]))
      | Some f \<Rightarrow>
          Inr (ctx @ [BeginPath, MoveTo (fst f) (snd f)]
                   @ map (\<lambda>p. LineTo (fst p) (snd p)) pts @ [Stroke]))"

text \<open>\<^verbatim>\<open>pts[pts.length - 1]\<close>: \<^verbatim>\<open>undefined\<close> on the empty array.\<close>

definition final_point :: "point list \<Rightarrow> point option" where
  "final_point pts = (if pts = [] then None else Some (last pts))"

definition handleRemoteEvent :: "msg \<Rightarrow> canvas \<Rightarrow> error + canvas" where
  "handleRemoteEvent m s =
     (case ctxRef s of
        None \<Rightarrow> Inr s
      | Some ctx \<Rightarrow>
          (case m of
             Begin r u color width p \<Rightarrow>
               Inr (s\<lparr>ctxRef := Some (applyBegin ctx color width p),
                      remoteStrokeRef := (remoteStrokeRef s)(u \<mapsto> \<lparr>drawing = True, last_pt = Some p\<rparr>)\<rparr>)
           | Move r u pts \<Rightarrow>
               let st = (case remoteStrokeRef s u of
                           None \<Rightarrow> \<lparr>drawing = False, last_pt = None\<rparr> | Some st0 \<Rightarrow> st0);
                   st1 = (if \<not> drawing st then st\<lparr>drawing := True\<rparr> else st)
               in (case applyMove ctx (last_pt st1) pts of
                     Inl e \<Rightarrow> Inl e
                   | Inr ctx' \<Rightarrow>
                       Inr (s\<lparr>ctxRef := Some ctx',
                              remoteStrokeRef :=
                                (remoteStrokeRef s)(u \<mapsto> st1\<lparr>last_pt := final_point pts\<rparr>)\<rparr>))
           | End r u \<Rightarrow>
               let st = (case remoteStrokeRef s u of
                           None \<Rightarrow> \<lparr>drawing = False, last_pt = None\<rparr> | Some st0 \<Rightarrow> st0)
               in Inr (s\<lparr>remoteStrokeRef :=
                            (remoteStrokeRef s)(u \<mapsto> st\<lparr>drawing := False, last_pt := None\<rparr>)\<rparr>)
           | Join r u \<Rightarrow> Inr s
           | History r es \<Rightarrow> Inr s))"

text \<open>The loop \<^verbatim>\<open>for (const e of msg.events) handleRemoteEvent(e)\<close>.\<close>

fun for_events :: "msg list \<Rightarrow> canvas \<Rightarrow> error + canvas" where
  "for_events [] s = Inr s"
| "for_events (e # es) s =
     (case handleRemoteEvent e s of Inl err \<Rightarrow> Inl err | Inr s' \<Rightarrow> for_events es s')"

text \<open>\<^verbatim>\<open>ws.onmessage\<close>; \<open>None\<close> is a frame \<^verbatim>\<open>JSON.parse\<close> rejects.\<close>

definition onmessage :: "msg option \<Rightarrow> canvas \<Rightarrow> error + canvas" where
  "onmessage raw s =
     (case raw of
        None \<Rightarrow> Inr s
      | Some m \<Rightarrow>
          (case ctxRef s of
             None \<Rightarrow> Inr s
           | Some ctx \<Rightarrow>
               (case m of
                  History r es \<Rightarrow> for_events es (s\<lparr>remoteStrokeRef := Map.empty\<rparr>)
                | _ \<Rightarrow> handleRemoteEvent m s)))"

subsection \<open>Local batching\<close>

definition flushMoveBuffer :: "string \<Rightarrow> canvas \<Rightarrow> canvas" where
  "flushMoveBuffer rm s =
     (case wsRef s of
        None \<Rightarrow> s
      | Some ws \<Rightarrow>
          if ws_readyState ws \<noteq> OPEN then s
          else if length (moveBufferRef s) = 0 then s
          else s\<lparr>moveBufferRef := [],
                 wsRef := Some (ws\<lparr>ws_sent := ws_sent ws @ [Move rm (userId s) (moveBufferRef s)]\<rparr>)\<rparr>)"

definition scheduleFlush :: "string \<Rightarrow> canvas \<Rightarrow> canvas" where
  "scheduleFlush rm s = (if flushTimerRef s \<noteq> None then s else s\<lparr>flushTimerRef := Some rm\<rparr>)"

text \<open>The timer callback; it runs only for a timer that is pending.\<close>

definition timer_fired :: "canvas \<Rightarrow> canvas" where
  "timer_fired s =
     (case flushTimerRef s of
        None \<Rightarrow> s
      | Some rm \<Rightarrow> flushMoveBuffer rm (s\<lparr>flushTimerRef := None\<rparr>))"

definition onPointerDown :: "string \<Rightarrow> string \<Rightarrow> real \<Rightarrow> pointer_event \<Rightarrow> canvas \<Rightarrow> canvas" where
  "onPointerDown rm color width e s =
     (case canvasRef s of
        None \<Rightarrow> s
      | Some cv \<Rightarrow>
          (case ctxRef s of
             None \<Rightarrow> s
           | Some ctx \<Rightarrow>
               (case wsRef s of
                  None \<Rightarrow> s
                | Some ws \<Rightarrow>
                    if ws_readyState ws \<noteq> OPEN then s
                    else
                      let p = getCanvasPoint e in
                      s\<lparr>canvasRef := Some (cv @ [SetPointerCapture (pointerId e)]),
                        localDrawingRef := True,
                        localLastRef := Some p,
                        ctxRef := Some (ctx @ [StrokeStyle color, LineWidth width, BeginPath,
                                               MoveTo (fst p) (snd p)]),
                        wsRef := Some (ws\<lparr>ws_sent := ws_sent ws
                                            @ [Begin rm (userId s) color width p]\<rparr>)\<rparr>)))"

text \<open>\<^verbatim>\<open>canvasRef.current!\<close> in \<^verbatim>\<open>getCanvasPoint\<close> throws on \<^verbatim>\<open>null\<close>.\<close>

definition onPointerMove :: "string \<Rightarrow> pointer_event \<Rightarrow> canvas \<Rightarrow> error + canvas" where
  "onPointerMove rm e s =
     (if \<not> localDrawingRef s then Inr s
      else case ctxRef s of
        None \<Rightarrow> Inr s
      | Some ctx \<Rightarrow>
          (case canvasRef s of
             None \<Rightarrow> Inl TypeError
           | Some cv \<Rightarrow>
               let p = getCanvasPoint e;
                   ctx' = (case localLastRef s of
                             None \<Rightarrow> ctx
                           | Some l \<Rightarrow> ctx @ [BeginPath, MoveTo (fst l) (snd l),
                                              LineTo (fst p) (snd p), Stroke])
               in Inr (scheduleFlush rm
                        (s\<lparr>ctxRef := Some ctx', localLastRef := Some p,
                           moveBufferRef := moveBufferRef s @ [p]\<rparr>))))"

definition onPointerUp :: "string \<Rightarrow> pointer_event \<Rightarrow> canvas \<Rightarrow> canvas" where
  "onPointerUp rm e s =
     (if \<not> localDrawingRef s then s
      else case canvasRef s of
        None \<Rightarrow> s
      | Some cv \<Rightarrow>
          (case wsRef s of
             None \<Rightarrow> s
           | Some ws \<Rightarrow>
               if ws_readyState ws \<noteq> OPEN then s
               else
                 let s1 = flushMoveBuffer rm (s\<lparr>localDrawingRef := False, localLastRef := None\<rparr>)
                 in s1\<lparr>wsRef := map_option
                                   (\<lambda>w. w\<lparr>ws_sent := ws_sent w @ [End rm (userId s1)]\<rparr>) (wsRef s1),
                       canvasRef := Some (cv @ [ReleasePointerCapture (pointerId e)])\<rparr>))"

text \<open>
  What happens between the start and the end of a stroke while the transport does not
  change state: pointer samples and firings of the flush timer, in any order.
\<close>

datatype action = PointerMove pointer_event | TimerFired

fun during :: "string \<Rightarrow> action list \<Rightarrow> canvas \<Rightarrow> error + canvas" where
  "during rm [] s = Inr s"
| "during rm (PointerMove e # as) s =
     (case onPointerMove rm e s of Inl err \<Rightarrow> Inl err | Inr s' \<Rightarrow> during rm as s')"
| "during rm (TimerFired # as) s = during rm as (timer_fired s)"

text \<open>The points the samples of a stroke push into the move buffer, in push order.\<close>

fun pushed :: "action list \<Rightarrow> point list" where
  "pushed [] = []"
| "pushed (PointerMove e # as) = getCanvasPoint e # pushed as"
| "pushed (TimerFired # as) = pushed as"

text \<open>The points of a transmitted frame, when it is a Move.\<close>

fun move_pts :: "msg \<Rightarrow> point list" where
  "move_pts (Move r u pts) = pts"
| "move_pts (Begin r u c w p) = []"
| "move_pts (End r u) = []"
| "move_pts (Join r u) = []"
| "move_pts (History r es) = []"

fun is_move :: "msg \<Rightarrow> bool" where
  "is_move (Move r u pts) = True"
| "is_move (Begin r u c w p) = False"
| "is_move (End r u) = False"
| "is_move (Join r u) = False"
| "is_move (History r es) = False"

definition frames :: "canvas \<Rightarrow> msg list" where
  "frames s = (case wsRef s of None \<Rightarrow> [] | Some ws \<Rightarrow> ws_sent ws)"

section \<open>Observations on runs\<close>

text \<open>The log of a room: the array \<^verbatim>\<open>roomHistory.get(r)\<close>, empty for a room never joined.\<close>

definition room_log :: "server \<Rightarrow> jsval \<Rightarrow> json list" where
  "room_log s r = (case roomHistory s r of None \<Rightarrow> [] | Some es \<Rightarrow> es)"

text \<open>
  The specification's accepted events. An input is accepted when it is a frame that
  parses to a value other than \<^verbatim>\<open>null\<close>, is not a join, and comes from a session whose
  room passes the handler's test; it is accepted for that room, as the event stamped
  with it. \<open>arrivals\<close> lists the accepted events of a run in arrival order, each with its
  room, and \<open>for_room\<close> keeps those of one room.
\<close>

definition accepted :: "input \<Rightarrow> server \<Rightarrow> (jsval \<times> json) list" where
  "accepted x s =
     (case x of
        Message i (Some msg) \<Rightarrow>
          if i < length (clients s) \<and> msg \<noteq> JNull
             \<and> get_prop msg ''type'' \<noteq> Inr (Some (JStr ''join''))
             \<and> truthy (room (clients s ! i))
          then [(room (clients s ! i), stamp msg (room (clients s ! i)))]
          else []
      | _ \<Rightarrow> [])"

fun arrivals :: "input list \<Rightarrow> server \<Rightarrow> (jsval \<times> json) list" where
  "arrivals [] s = []"
| "arrivals (x # xs) s =
     accepted x s @ (case step x s of Inl e \<Rightarrow> [] | Inr s' \<Rightarrow> arrivals xs s')"

definition for_room :: "jsval \<Rightarrow> (jsval \<times> json) list \<Rightarrow> json list" where
  "for_room r ps = map snd (filter (\<lambda>p. fst p = r) ps)"

definition history_after :: "input list \<Rightarrow> jsval \<Rightarrow> json list option" where
  "history_after xs r = (case run xs init of Inl e \<Rightarrow> None | Inr s \<Rightarrow> roomHistory s r)"

text \<open>Every session whose room passes the handler's test has a log in \<^verbatim>\<open>roomHistory\<close>.\<close>

definition known :: "server \<Rightarrow> bool" where
  "known s =
     (\<forall>j<length (clients s).
        truthy (room (clients s ! j)) \<longrightarrow> roomHistory s (room (clients s ! j)) \<noteq> None)"

text \<open>The first two tests of \<^verbatim>\<open>flushMoveBuffer\<close>: there is a socket and it is open.\<close>

definition can_send :: "canvas \<Rightarrow> bool" where
  "can_send s = (case wsRef s of None \<Rightarrow> False | Some ws \<Rightarrow> ws_readyState ws = OPEN)"

text \<open>The guard of \<^verbatim>\<open>onPointerDown\<close>: canvas, context and an open socket.\<close>

definition stroke_ready :: "canvas \<Rightarrow> bool" where
  "stroke_ready s = (canvasRef s \<noteq> None \<and> ctxRef s \<noteq> None \<and> can_send s)"

definition all_moves :: "msg list \<Rightarrow> bool" where
  "all_moves ms = list_all (\<lambda>m. is_move m \<and> move_pts m \<noteq> []) ms"

definition points_of :: "msg list \<Rightarrow> point list" where
  "points_of ms = concat (map move_pts ms)"

definition remote_state_after :: "error + canvas \<Rightarrow> string \<Rightarrow> StrokeState option" where
  "remote_state_after res u = (case res of Inl e \<Rightarrow> None | Inr s \<Rightarrow> remoteStrokeRef s u)"

section \<open>Example frames, runs and states\<close>

definition join_r1 :: json where
  "join_r1 = JObj [(''type'', JStr ''join''), (''room'', JStr ''r1''), (''userId'', JStr ''u1'')]"

text \<open>A begin whose sender names another room, and a move that names none.\<close>

definition begin_u1 :: json where
  "begin_u1 =
     JObj [(''type'', JStr ''begin''), (''room'', JStr ''elsewhere''), (''userId'', JStr ''u1''),
           (''color'', JStr ''#000''), (''width'', JNum 2), (''p'', JArr [JNum 10, JNum 10])]"


definition history_typed :: json where
  "history_typed = JObj [(''type'', JStr ''history''), (''events'', JArr [])]"

text \<open>The same three events as the server stamps them in room \<open>r1\<close>.\<close>

definition begin_r1 :: json where
  "begin_r1 =
     JObj [(''type'', JStr ''begin''), (''room'', JStr ''r1''), (''userId'', JStr ''u1''),
           (''color'', JStr ''#000''), (''width'', JNum 2), (''p'', JArr [JNum 10, JNum 10])]"


definition history_stored :: json where
  "history_stored =
     JObj [(''type'', JStr ''history''), (''events'', JArr []), (''room'', JStr ''r1'')]"

definition history_r1 :: "json list \<Rightarrow> json" where
  "history_r1 es = JObj [(''type'', JStr ''history''), (''room'', JStr ''r1''), (''events'', JArr es)]"



text \<open>Two sessions in \<open>r1\<close>.\<close>

definition trace_b :: "input list" where
  "trace_b = [Connection, Message 0 (Some join_r1), Connection, Message 1 (Some join_r1)]"

definition state_b :: server where
  "state_b =
     \<lparr>roomHistory = [Val (JStr ''r1'') \<mapsto> []],
      clients = [\<lparr>readyState = OPEN, room = Val (JStr ''r1''), sent = [history_r1 []]\<rparr>,
                 \<lparr>readyState = OPEN, room = Val (JStr ''r1''), sent = [history_r1 []]\<rparr>],
      allocs = 2\<rparr>"

text \<open>A session in \<open>r1\<close> sends a frame whose type is \<open>history\<close>.\<close>

definition trace_c :: "input list" where
  "trace_c = [Connection, Message 0 (Some join_r1), Message 0 (Some history_typed)]"

definition state_c :: server where
  "state_c =
     \<lparr>roomHistory = [Val (JStr ''r1'') \<mapsto> [history_stored]],
      clients = [\<lparr>readyState = OPEN, room = Val (JStr ''r1''), sent = [history_r1 []]\<rparr>],
      allocs = 1\<rparr>"

definition room_clients :: "client list" where
  "room_clients =
     [\<lparr>readyState = OPEN, room = Val (JStr ''r1''), sent = []\<rparr>,
      \<lparr>readyState = OPEN, room = Val (JStr ''r1''), sent = []\<rparr>,
      \<lparr>readyState = CLOSING, room = Val (JStr ''r1''), sent = []\<rparr>,
      \<lparr>readyState = OPEN, room = Val (JStr ''r2''), sent = []\<rparr>]"

text \<open>The component after mounting, with an open socket.\<close>

definition mounted :: canvas where
  "mounted =
     \<lparr>canvasRef = Some [], ctxRef = Some [],
      wsRef = Some \<lparr>ws_readyState = OPEN, ws_sent = []\<rparr>,
      remoteStrokeRef = Map.empty, localDrawingRef = False, localLastRef = None,
      moveBufferRef = [], flushTimerRef = None, userId = ''me''\<rparr>"

definition drawing_u1 :: canvas where
  "drawing_u1 =
     mounted\<lparr>remoteStrokeRef := [''u1'' \<mapsto> \<lparr>drawing = True, last_pt = Some (10, 10)\<rparr>]\<rparr>"

definition buffered :: canvas where
  "buffered = mounted\<lparr>moveBufferRef := [(12, 12), (14, 14)]\<rparr>"

definition sample :: "real \<Rightarrow> real \<Rightarrow> pointer_event" where
  "sample x y = \<lparr>clientX = x, clientY = y, rect_left = 0, rect_top = 0, pointerId = 1\<rparr>"

definition stroke_acts :: "action list" where
  "stroke_acts = [PointerMove (sample 12 12), PointerMove (sample 14 14), TimerFired,
                  PointerMove (sample 16 16)]"

section \<open>The broadcast router\<close>

lemma broadcast_length: "length (broadcast r d ex cs) = length cs"
  by (simp add: broadcast_def)

lemma broadcast_nth: "j < length cs \<Longrightarrow> broadcast r d ex cs ! j = deliver r d ex j (cs ! j)"
  by (simp add: broadcast_def)

lemma deliver_room: "room (deliver r d ex j c) = room c"
  by (simp add: deliver_def)

lemma deliver_readyState: "readyState (deliver r d ex j c) = readyState c"
  by (simp add: deliver_def)

text \<open>
  C2. A call of \<open>broadcast\<close> keeps the list of clients in place, and hands the data to
  the client at position \<open>j\<close> exactly when that client is open, its room is the room of
  the call and it is not the excluded one; then the data is the last thing sent to it.
  Every other client, the sender and a client that is not open included, is returned as
  it was: nothing is kept for it.
\<close>

theorem broadcast_delivery:
  assumes "j < length cs"
  shows "length (broadcast r data except cs) = length cs \<and>
         broadcast r data except cs ! j =
           (if readyState (cs ! j) = OPEN \<and> room (cs ! j) = r \<and> j \<noteq> except
            then (cs ! j)\<lparr>sent := sent (cs ! j) @ [data]\<rparr> else cs ! j)"
  using assms by (simp add: broadcast_def deliver_def)

theorem broadcast_delivery_witness:
  "length (broadcast (Val (JStr ''r1'')) begin_r1 0 room_clients) = 4 \<and>
   broadcast (Val (JStr ''r1'')) begin_r1 0 room_clients ! 1 =
     \<lparr>readyState = OPEN, room = Val (JStr ''r1''), sent = [begin_r1]\<rparr>"
  using broadcast_delivery[of 1 room_clients "Val (JStr ''r1'')" begin_r1 0]
  by (simp add: room_clients_def)

section \<open>The message handler\<close>

lemmas server_eval = step_def on_message_def on_join_def on_event_def on_connection_def
  init_def broadcast_def deliver_def stamp_def set_prop_def history_msg_def Let_def



lemma run_trace_b: "run trace_b init = Inr state_b"
  by (simp add: trace_b_def state_b_def server_eval join_r1_def history_r1_def)

lemma run_trace_c: "run trace_c init = Inr state_c"
  by (simp add: trace_c_def state_c_def server_eval join_r1_def history_r1_def
      history_typed_def history_stored_def)

subsection \<open>Sessions that passed the room test have a log\<close>

lemma on_join_known: "i < length (clients s) \<Longrightarrow> known s \<Longrightarrow> on_join i msg s = Inr s' \<Longrightarrow> known s'"
  unfolding known_def on_join_def
  by (auto simp: Let_def nth_list_update split: sum.splits if_splits)

lemma on_event_known: "known s \<Longrightarrow> on_event i msg s = Inr s' \<Longrightarrow> known s'"
  unfolding known_def on_event_def
  by (auto simp: Let_def broadcast_length broadcast_nth deliver_room split: option.splits if_splits)

lemma step_known:
  assumes "known s" and "step x s = Inr s'"
  shows "known s'"
proof (cases x)
  case Connection
  with assms show ?thesis
    by (auto simp: step_def on_connection_def known_def nth_append)
next
  case (Message i raw)
  with assms show ?thesis
    by (auto simp: step_def on_message_def split: option.splits sum.splits if_splits
        dest: on_join_known on_event_known)
next
  case (Transport i st)
  with assms show ?thesis
    by (auto simp: step_def known_def nth_list_update split: if_splits)
qed

lemma run_known: "known s \<Longrightarrow> run xs s = Inr s' \<Longrightarrow> known s'"
  by (induction xs arbitrary: s) (auto split: sum.splits dest: step_known)

lemma known_init: "known init"
  by (simp add: known_def init_def)

subsection \<open>A log grows by the accepted events, at its end\<close>

lemma on_join_log: "on_join i msg s = Inr s' \<Longrightarrow> room_log s' r = room_log s r"
  by (auto simp: on_join_def room_log_def Let_def split: sum.splits)

lemma on_event_log:
  "on_event i msg s = Inr s' \<Longrightarrow>
   room_log s' r =
     room_log s r @ (if truthy (room (clients s ! i)) \<and> room (clients s ! i) = r
                     then [stamp msg (room (clients s ! i))] else [])"
  by (auto simp: on_event_def room_log_def Let_def split: option.splits if_splits)

lemma step_log:
  assumes "step x s = Inr s'"
  shows "room_log s' r = room_log s r @ for_room r (accepted x s)"
proof (cases x)
  case Connection
  with assms show ?thesis
    by (auto simp: step_def on_connection_def room_log_def accepted_def for_room_def)
next
  case (Message i raw)
  show ?thesis
  proof (cases raw)
    case None
    with Message assms show ?thesis
      by (auto simp: step_def on_message_def accepted_def for_room_def split: if_splits)
  next
    case (Some msg)
    show ?thesis
    proof (cases "i < length (clients s)")
      case False
      with Message Some assms show ?thesis
        by (simp add: step_def accepted_def for_room_def)
    next
      case True
      with Message Some assms have om: "on_message i (Some msg) s = Inr s'"
        by (simp add: step_def)
      then obtain t where t: "get_prop msg ''type'' = Inr t"
        by (auto simp: on_message_def split: sum.splits)
      then have nn: "msg \<noteq> JNull" by auto
      show ?thesis
      proof (cases "t = Some (JStr ''join'')")
        case True
        with om t have "on_join i msg s = Inr s'" by (simp add: on_message_def)
        then have "room_log s' r = room_log s r" by (rule on_join_log)
        with Message Some t True show ?thesis
          by (simp add: accepted_def for_room_def)
      next
        case False
        with om t have "on_event i msg s = Inr s'" by (simp add: on_message_def)
        from on_event_log[OF this, of r] Message Some t False nn \<open>i < length (clients s)\<close>
        show ?thesis
          by (auto simp: accepted_def for_room_def)
      qed
    qed
  qed
next
  case (Transport i st)
  with assms show ?thesis
    by (auto simp: step_def room_log_def accepted_def for_room_def split: if_splits)
qed

lemma for_room_append: "for_room r (xs @ ys) = for_room r xs @ for_room r ys"
  by (simp add: for_room_def)

lemma run_log: "run xs s = Inr s' \<Longrightarrow> room_log s' r = room_log s r @ for_room r (arrivals xs s)"
proof (induction xs arbitrary: s)
  case Nil
  then show ?case by (simp add: for_room_def)
next
  case (Cons x xs)
  then obtain s1 where s1: "step x s = Inr s1" and r: "run xs s1 = Inr s'"
    by (auto split: sum.splits)
  from Cons.IH[OF r] step_log[OF s1, of r] s1 show ?case
    by (simp add: for_room_append)
qed

lemma log_init: "room_log init r = []"
  by (simp add: room_log_def init_def)



subsection \<open>The room property of a stamped event\<close>

lemma map_of_overwrite:
  "map_of (map (\<lambda>kv. if fst kv = k then (k, w) else kv) kvs) k' =
     (if k' = k then (if map_of kvs k = None then None else Some w) else map_of kvs k')"
  by (induction kvs) auto

lemma map_of_filter_other:
  "k' \<noteq> k \<Longrightarrow> map_of (filter (\<lambda>kv. fst kv \<noteq> k) kvs) k' = map_of kvs k'"
  by (induction kvs) auto

lemma map_of_snoc:
  "map_of (kvs @ [(k, w)]) k' =
     (if map_of kvs k' = None \<and> k' = k then Some w else map_of kvs k')"
  by (induction kvs) auto

lemma map_of_set_prop_other: "k' \<noteq> k \<Longrightarrow> map_of (set_prop k v kvs) k' = map_of kvs k'"
  by (cases v)
    (simp_all add: set_prop_def map_of_overwrite map_of_filter_other map_of_snoc
      del: map_of_append)

lemma map_of_set_prop_same: "map_of (set_prop k (Some w) kvs) k = Some w"
  by (simp add: set_prop_def map_of_overwrite map_of_snoc map_of_eq_None_iff del: map_of_append)

lemma set_prop_only:
  assumes "kv \<in> set (set_prop k (Some w) kvs)" and "fst kv = k"
  shows "snd kv = w"
proof (cases "k \<in> fst ` set kvs")
  case True
  with assms show ?thesis by (auto simp: set_prop_def split: if_splits)
next
  case False
  with assms have "kv \<in> set kvs \<or> kv = (k, w)" by (auto simp: set_prop_def)
  with False assms(2) show ?thesis by (metis image_eqI snd_conv)
qed

lemma filter_overwrite:
  "filter (\<lambda>kv. fst kv \<noteq> k) (map (\<lambda>kv. if fst kv = k then (k, w) else kv) kvs) =
   filter (\<lambda>kv. fst kv \<noteq> k) kvs"
  by (induction kvs) auto

lemma filter_set_prop:
  "filter (\<lambda>kv. fst kv \<noteq> k) (set_prop k v kvs) = filter (\<lambda>kv. fst kv \<noteq> k) kvs"
  by (cases v) (simp_all add: set_prop_def filter_overwrite)

lemma truthy_content: "truthy r \<Longrightarrow> \<exists>v. content r = Some v"
  by (cases r) auto

text \<open>
  C7. In any state the server reaches, a frame that is not a join, from a session whose
  room passes the handler's test, is handled without an exception. One object is made of
  it: the message with its properties other than \<open>room\<close> as they were, in their order,
  and with the session's room as its \<open>room\<close> property and no \<open>room\<close> property of another
  value, whatever the sender wrote there. That object is appended to the log of the
  session's room, the other logs staying as they were, and it is what is handed to the
  open clients of that room other than the sender; no other client receives anything.
\<close>

theorem room_stamped:
  assumes "run xs init = Inr s" and "i < length (clients s)"
    and "get_prop msg ''type'' = Inr t" and "t \<noteq> Some (JStr ''join'')"
    and "truthy (room (clients s ! i))"
  shows "\<exists>s' kvs v evs.
           on_message i (Some msg) s = Inr s' \<and>
           content (room (clients s ! i)) = Some v \<and>
           map_of kvs ''room'' = Some v \<and>
           (\<forall>kv\<in>set kvs. fst kv = ''room'' \<longrightarrow> snd kv = v) \<and>
           (\<forall>k. k \<noteq> ''room'' \<longrightarrow> map_of kvs k = map_of (spread msg) k) \<and>
           filter (\<lambda>kv. fst kv \<noteq> ''room'') kvs = filter (\<lambda>kv. fst kv \<noteq> ''room'') (spread msg) \<and>
           roomHistory s (room (clients s ! i)) = Some evs \<and>
           roomHistory s' = (roomHistory s)(room (clients s ! i) \<mapsto> evs @ [JObj kvs]) \<and>
           length (clients s') = length (clients s) \<and>
           (\<forall>j<length (clients s).
              clients s' ! j =
                (if readyState (clients s ! j) = OPEN \<and> room (clients s ! j) = room (clients s ! i)
                    \<and> j \<noteq> i
                 then (clients s ! j)\<lparr>sent := sent (clients s ! j) @ [JObj kvs]\<rparr>
                 else clients s ! j))"
proof -
  define r where "r = room (clients s ! i)"
  from assms(5) obtain v where v: "content r = Some v"
    using truthy_content r_def by blast
  have "known s" using run_known[OF known_init assms(1)] .
  with assms(2,5) obtain evs where evs: "roomHistory s r = Some evs"
    by (auto simp: known_def r_def)
  define kvs where "kvs = set_prop ''room'' (Some v) (spread msg)"
  define s' where "s' = s\<lparr>roomHistory := (roomHistory s)(r \<mapsto> evs @ [JObj kvs]),
                          clients := broadcast r (JObj kvs) i (clients s)\<rparr>"
  have om: "on_message i (Some msg) s = Inr s'"
    using assms(3,4,5) evs v
    by (simp add: on_message_def on_event_def Let_def r_def[symmetric] stamp_def kvs_def s'_def)
  have peers: "\<forall>j<length (clients s).
              clients s' ! j =
                (if readyState (clients s ! j) = OPEN \<and> room (clients s ! j) = r \<and> j \<noteq> i
                 then (clients s ! j)\<lparr>sent := sent (clients s ! j) @ [JObj kvs]\<rparr>
                 else clients s ! j)"
    by (simp add: s'_def broadcast_nth deliver_def)
  have len: "length (clients s') = length (clients s)"
    by (simp add: s'_def broadcast_length)
  have only: "\<forall>kv\<in>set kvs. fst kv = ''room'' \<longrightarrow> snd kv = v"
    using set_prop_only unfolding kvs_def by blast
  have rest: "\<forall>k. k \<noteq> ''room'' \<longrightarrow> map_of kvs k = map_of (spread msg) k"
    by (simp add: kvs_def map_of_set_prop_other)
  have same: "filter (\<lambda>kv. fst kv \<noteq> ''room'') kvs = filter (\<lambda>kv. fst kv \<noteq> ''room'') (spread msg)"
    by (simp add: kvs_def filter_set_prop)
  have hist: "roomHistory s' = (roomHistory s)(r \<mapsto> evs @ [JObj kvs])"
    by (simp add: s'_def)
  have rm: "map_of kvs ''room'' = Some v"
    by (simp add: kvs_def map_of_set_prop_same)
  from om v rm only rest same evs hist len peers show ?thesis
    unfolding r_def[symmetric] by blast
qed

theorem room_stamped_witness:
  "\<exists>s' kvs v evs.
     on_message 0 (Some begin_u1) state_b = Inr s' \<and>
     content (room (clients state_b ! 0)) = Some v \<and>
     map_of kvs ''room'' = Some v \<and>
     (\<forall>kv\<in>set kvs. fst kv = ''room'' \<longrightarrow> snd kv = v) \<and>
     (\<forall>k. k \<noteq> ''room'' \<longrightarrow> map_of kvs k = map_of (spread begin_u1) k) \<and>
     filter (\<lambda>kv. fst kv \<noteq> ''room'') kvs = filter (\<lambda>kv. fst kv \<noteq> ''room'') (spread begin_u1) \<and>
     roomHistory state_b (room (clients state_b ! 0)) = Some evs \<and>
     roomHistory s' = (roomHistory state_b)(room (clients state_b ! 0) \<mapsto> evs @ [JObj kvs]) \<and>
     length (clients s') = length (clients state_b) \<and>
     (\<forall>j<length (clients state_b).
        clients s' ! j =
          (if readyState (clients state_b ! j) = OPEN
              \<and> room (clients state_b ! j) = room (clients state_b ! 0) \<and> j \<noteq> 0
           then (clients state_b ! j)\<lparr>sent := sent (clients state_b ! j) @ [JObj kvs]\<rparr>
           else clients state_b ! j))"
proof -
  have "0 < length (clients state_b)"
    and "get_prop begin_u1 ''type'' = Inr (Some (JStr ''begin''))"
    and "Some (JStr ''begin'') \<noteq> Some (JStr ''join'')"
    and "truthy (room (clients state_b ! 0))"
    by (simp_all add: state_b_def begin_u1_def)
  from room_stamped[OF run_trace_b this] show ?thesis .
qed

text \<open>
  The run of the witness, evaluated: the begin that named the room \<open>elsewhere\<close> is logged
  and handed to the peer as an event of \<open>r1\<close>, and not to its sender.
\<close>

lemma begin_elsewhere_stamped:
  "on_message 0 (Some begin_u1) state_b =
     Inr \<lparr>roomHistory = [Val (JStr ''r1'') \<mapsto> [begin_r1]],
          clients = [\<lparr>readyState = OPEN, room = Val (JStr ''r1''), sent = [history_r1 []]\<rparr>,
                     \<lparr>readyState = OPEN, room = Val (JStr ''r1''),
                      sent = [history_r1 [], begin_r1]\<rparr>],
          allocs = 2\<rparr>"
  by (simp add: state_b_def begin_u1_def begin_r1_def server_eval)

subsection \<open>What a log holds\<close>

lemma digit_char_not_t: "d < 10 \<Longrightarrow> digit_char d \<noteq> CHR ''t''"
proof
  assume d: "d < 10" and "digit_char d = CHR ''t''"
  then have "of_char (digit_char d) = (of_char (CHR ''t'') :: nat)" by simp
  then have "(48 + d) mod 256 = 116" by (simp add: digit_char_def)
  with d show False by simp
qed

lemma string_of_nat_no_t: "CHR ''t'' \<notin> set (string_of_nat n)"
proof (induction n rule: string_of_nat.induct)
  case (1 n)
  show ?case
  proof (cases "n < 10")
    case True
    then show ?thesis
      using digit_char_not_t[of n] by (subst string_of_nat.simps) auto
  next
    case False
    then show ?thesis
      using 1 digit_char_not_t[of "n mod 10"] by (subst string_of_nat.simps) auto
  qed
qed

lemma string_of_nat_neq_type: "string_of_nat n \<noteq> ''type''"
  using string_of_nat_no_t[of n] by auto

lemma map_of_index_keys: "map_of (map (\<lambda>i. (string_of_nat i, f i)) is) ''type'' = None"
  by (induction "is")
    (auto simp: string_of_nat_neq_type string_of_nat_neq_type[THEN not_sym])

lemma spread_type: "get_prop msg ''type'' = Inr t \<Longrightarrow> map_of (spread msg) ''type'' = t"
  by (cases msg) (auto simp: map_of_index_keys)

lemma accepted_not_join:
  assumes "p \<in> set (accepted x s)"
  shows "\<exists>kvs. snd p = JObj kvs \<and> map_of kvs ''type'' \<noteq> Some (JStr ''join'')"
proof -
  from assms obtain i msg where x: "x = Message i (Some msg)"
    and nn: "msg \<noteq> JNull" and nj: "get_prop msg ''type'' \<noteq> Inr (Some (JStr ''join''))"
    and p: "p = (room (clients s ! i), stamp msg (room (clients s ! i)))"
    by (auto simp: accepted_def split: input.splits option.splits if_splits)
  from nn obtain t where t: "get_prop msg ''type'' = Inr t"
    by (cases msg) auto
  with nj have "t \<noteq> Some (JStr ''join'')" by simp
  moreover have "map_of (set_prop ''room'' (content (room (clients s ! i))) (spread msg)) ''type'' = t"
    using spread_type[OF t] by (simp add: map_of_set_prop_other)
  ultimately show ?thesis using p by (simp add: stamp_def)
qed

lemma arrivals_not_join:
  "p \<in> set (arrivals xs s) \<Longrightarrow>
   \<exists>kvs. snd p = JObj kvs \<and> map_of kvs ''type'' \<noteq> Some (JStr ''join'')"
  by (induction xs arbitrary: s) (auto split: sum.splits dest: accepted_not_join)

text \<open>
  C3, as stated, fails: the handler tests the type of a frame against \<open>join\<close> only. A
  session in \<open>r1\<close> that sends a frame of type \<open>history\<close> gets it appended to the log of
  \<open>r1\<close>, from where it goes into the events of every later History message.
\<close>

theorem history_kind_counterexample:
  "history_after trace_c (Val (JStr ''r1'')) = Some [history_stored] \<and>
   get_prop history_stored ''type'' = Inr (Some (JStr ''history''))"
  by (simp add: history_after_def run_trace_c) (simp add: state_c_def history_stored_def)

text \<open>
  C3, amended. Every event in the log of a room, in any state the server reaches, is an
  object whose type is not \<open>join\<close>: a join is the one kind the server never records.
\<close>

theorem history_never_join:
  assumes "run xs init = Inr s" and "roomHistory s r = Some es" and "e \<in> set es"
  shows "\<exists>kvs. e = JObj kvs \<and> map_of kvs ''type'' \<noteq> Some (JStr ''join'')"
proof -
  from run_log[OF assms(1), of r] have "room_log s r = for_room r (arrivals xs init)"
    by (simp add: log_init)
  with assms(2) have "es = for_room r (arrivals xs init)"
    by (simp add: room_log_def)
  with assms(3) obtain p where "p \<in> set (arrivals xs init)" and "e = snd p"
    by (auto simp: for_room_def)
  with arrivals_not_join[of p xs init] show ?thesis by simp
qed

theorem history_never_join_witness:
  "\<exists>kvs. history_stored = JObj kvs \<and> map_of kvs ''type'' \<noteq> Some (JStr ''join'')"
  using history_never_join[OF run_trace_c, of "Val (JStr ''r1'')" "[history_stored]" history_stored]
  by (simp add: state_c_def)

subsection \<open>Frames the handler drops\<close>

text \<open>
  A frame that does not parse leaves the server as it was, and so does a frame, other
  than \<^verbatim>\<open>null\<close>, that is not a join and comes from a session whose room fails the test.
\<close>

lemma unparseable_dropped: "on_message i None s = Inr s"
  by (simp add: on_message_def)

lemma unbound_dropped:
  assumes "get_prop msg ''type'' = Inr t" and "t \<noteq> Some (JStr ''join'')"
    and "\<not> truthy (room (clients s ! i))"
  shows "on_message i (Some msg) s = Inr s"
  using assms by (simp add: on_message_def on_event_def)

text \<open>
  C9. The frame \<^verbatim>\<open>null\<close> parses, is no join, and on a connection that has just been
  opened, with no room bound, it is not dropped: reading its type throws, outside the
  handler's only \<^verbatim>\<open>try\<close>.
\<close>

theorem null_frame_throws:
  "on_message 0 (Some JNull) (on_connection init) = Inl TypeError"
  by (simp add: on_message_def)

section \<open>The local batching layer\<close>

lemmas client_eval = handleRemoteEvent_def applyMove_def applyBegin_def final_point_def
  onmessage_def flushMoveBuffer_def scheduleFlush_def timer_fired_def onPointerDown_def
  onPointerMove_def onPointerUp_def getCanvasPoint_def frames_def can_send_def Let_def

text \<open>
  C10. \<open>flushMoveBuffer\<close> hands a frame to the socket exactly when there is a socket, it is
  open and the buffer is not empty. Then the frame is one Move that carries the buffered
  points in buffer order, and the buffer is empty afterwards; otherwise nothing at all
  changes, the buffer included. No frame it sends is a Move without points.
\<close>

theorem flushMoveBuffer_transmits:
  "(frames (flushMoveBuffer rm s) \<noteq> frames s \<longleftrightarrow> can_send s \<and> moveBufferRef s \<noteq> []) \<and>
   (can_send s \<and> moveBufferRef s \<noteq> [] \<longrightarrow>
      frames (flushMoveBuffer rm s) = frames s @ [Move rm (userId s) (moveBufferRef s)] \<and>
      moveBufferRef (flushMoveBuffer rm s) = []) \<and>
   (\<not> (can_send s \<and> moveBufferRef s \<noteq> []) \<longrightarrow> flushMoveBuffer rm s = s) \<and>
   (\<forall>m\<in>set (drop (length (frames s)) (frames (flushMoveBuffer rm s))). move_pts m \<noteq> [])"
  by (auto simp: flushMoveBuffer_def frames_def can_send_def split: option.splits)

theorem flushMoveBuffer_transmits_witness:
  "frames (flushMoveBuffer ''r1'' buffered) = [Move ''r1'' ''me'' [(12, 12), (14, 14)]] \<and>
   moveBufferRef (flushMoveBuffer ''r1'' buffered) = [] \<and>
   flushMoveBuffer ''r1'' mounted = mounted"
  using flushMoveBuffer_transmits[of "''r1''" buffered]
    flushMoveBuffer_transmits[of "''r1''" mounted]
  by (simp add: buffered_def mounted_def can_send_def frames_def)

subsection \<open>One stroke\<close>

lemma flush_ready:
  assumes "stroke_ready s"
  shows "\<exists>mid. stroke_ready (flushMoveBuffer rm s) \<and>
           frames (flushMoveBuffer rm s) = frames s @ mid \<and> all_moves mid \<and>
           points_of mid = moveBufferRef s \<and> moveBufferRef (flushMoveBuffer rm s) = [] \<and>
           localDrawingRef (flushMoveBuffer rm s) = localDrawingRef s \<and>
           userId (flushMoveBuffer rm s) = userId s \<and>
           canvasRef (flushMoveBuffer rm s) = canvasRef s"
proof (cases "moveBufferRef s = []")
  case True
  with assms show ?thesis
    by (intro exI[of _ "[]"])
      (auto simp: flushMoveBuffer_def stroke_ready_def can_send_def frames_def all_moves_def
        points_of_def split: option.splits)
next
  case False
  with assms show ?thesis
    by (intro exI[of _ "[Move rm (userId s) (moveBufferRef s)]"])
      (auto simp: flushMoveBuffer_def stroke_ready_def can_send_def frames_def all_moves_def
        points_of_def split: option.splits)
qed

lemma timer_ready:
  assumes "stroke_ready s"
  shows "\<exists>mid. stroke_ready (timer_fired s) \<and>
           frames (timer_fired s) = frames s @ mid \<and> all_moves mid \<and>
           points_of mid @ moveBufferRef (timer_fired s) = moveBufferRef s \<and>
           localDrawingRef (timer_fired s) = localDrawingRef s \<and>
           userId (timer_fired s) = userId s"
proof (cases "flushTimerRef s")
  case None
  with assms show ?thesis
    by (intro exI[of _ "[]"]) (simp add: timer_fired_def all_moves_def points_of_def)
next
  case (Some r)
  define s0 where "s0 = s\<lparr>flushTimerRef := None\<rparr>"
  have "stroke_ready s0" using assms by (simp add: s0_def stroke_ready_def can_send_def)
  from flush_ready[OF this, of r] obtain mid where
    "stroke_ready (flushMoveBuffer r s0)" "frames (flushMoveBuffer r s0) = frames s0 @ mid"
    "all_moves mid" "points_of mid = moveBufferRef s0" "moveBufferRef (flushMoveBuffer r s0) = []"
    "localDrawingRef (flushMoveBuffer r s0) = localDrawingRef s0"
    "userId (flushMoveBuffer r s0) = userId s0"
    by blast
  with Some show ?thesis
    by (intro exI[of _ mid]) (simp add: timer_fired_def s0_def frames_def)
qed

lemma onPointerMove_ready:
  assumes "stroke_ready s" and "localDrawingRef s"
  shows "\<exists>s'. onPointerMove rm e s = Inr s' \<and> stroke_ready s' \<and> frames s' = frames s \<and>
           moveBufferRef s' = moveBufferRef s @ [getCanvasPoint e] \<and>
           localDrawingRef s' \<and> userId s' = userId s"
  using assms
  by (auto simp: onPointerMove_def scheduleFlush_def stroke_ready_def can_send_def frames_def
      Let_def split: option.splits)

text \<open>
  While a stroke is drawn, the points sent so far followed by the points still buffered
  are the points buffered at its start followed by the points pushed since.
\<close>

lemma during_ready:
  assumes "stroke_ready s" and "localDrawingRef s"
  shows "\<exists>s' mid. during rm acts s = Inr s' \<and> stroke_ready s' \<and> localDrawingRef s' \<and>
           userId s' = userId s \<and> frames s' = frames s @ mid \<and> all_moves mid \<and>
           points_of mid @ moveBufferRef s' = moveBufferRef s @ pushed acts"
  using assms
proof (induction acts arbitrary: s)
  case Nil
  then show ?case
    by (intro exI[of _ s] exI[of _ "[]"]) (simp add: all_moves_def points_of_def)
next
  case (Cons a acts)
  show ?case
  proof (cases a)
    case (PointerMove e)
    from onPointerMove_ready[OF Cons.prems, of rm e] obtain s1 where
      s1: "onPointerMove rm e s = Inr s1" "stroke_ready s1" "frames s1 = frames s"
          "moveBufferRef s1 = moveBufferRef s @ [getCanvasPoint e]"
          "localDrawingRef s1" "userId s1 = userId s"
      by blast
    from Cons.IH[OF s1(2) s1(5)] obtain s' mid where
      "during rm acts s1 = Inr s'" "stroke_ready s'" "localDrawingRef s'"
      "userId s' = userId s1" "frames s' = frames s1 @ mid" "all_moves mid"
      "points_of mid @ moveBufferRef s' = moveBufferRef s1 @ pushed acts"
      by blast
    with s1 PointerMove show ?thesis
      by (intro exI[of _ s'] exI[of _ mid]) simp
  next
    case TimerFired
    from timer_ready[OF Cons.prems(1)] obtain m1 where
      t: "stroke_ready (timer_fired s)" "frames (timer_fired s) = frames s @ m1" "all_moves m1"
         "points_of m1 @ moveBufferRef (timer_fired s) = moveBufferRef s"
         "localDrawingRef (timer_fired s) = localDrawingRef s"
         "userId (timer_fired s) = userId s"
      by blast
    with Cons.prems have ld: "localDrawingRef (timer_fired s)" by simp
    from Cons.IH[OF t(1) ld] obtain s' m2 where
      d: "during rm acts (timer_fired s) = Inr s'" "stroke_ready s'" "localDrawingRef s'"
      "userId s' = userId (timer_fired s)" "frames s' = frames (timer_fired s) @ m2" "all_moves m2"
      "points_of m2 @ moveBufferRef s' = moveBufferRef (timer_fired s) @ pushed acts"
      by blast
    have "points_of (m1 @ m2) @ moveBufferRef s' = moveBufferRef s @ pushed (a # acts)"
      using t(4) d(7) TimerFired by (simp add: points_of_def)
    with t d TimerFired show ?thesis
      by (intro exI[of _ s'] exI[of _ "m1 @ m2"]) (simp add: all_moves_def)
  qed
qed

text \<open>
  C5. A stroke that starts with canvas, context and an open socket in place, goes through
  any sequence of pointer samples and firings of the flush timer, and ends, with the
  socket open throughout, sends: the Begin, then Moves, then the End. No Move is empty,
  and the points of the Moves, one array after the other, are the points that were in the
  buffer at the start followed by the points pushed during the stroke, each once and in
  push order; the buffer is empty when the End has been sent.
\<close>

theorem stroke_points_sent_once:
  assumes "canvasRef s = Some cv" and "ctxRef s = Some cx"
    and "wsRef s = Some ws" and "ws_readyState ws = OPEN"
  shows "\<exists>s1 mid.
           during rm acts (onPointerDown rm color width e0 s) = Inr s1 \<and>
           frames (onPointerUp rm e1 s1) =
             ws_sent ws @ [Begin rm (userId s) color width (getCanvasPoint e0)] @ mid
               @ [End rm (userId s)] \<and>
           list_all (\<lambda>m. is_move m \<and> move_pts m \<noteq> []) mid \<and>
           concat (map move_pts mid) = moveBufferRef s @ pushed acts \<and>
           moveBufferRef (onPointerUp rm e1 s1) = []"
proof -
  define s0 where "s0 = onPointerDown rm color width e0 s"
  have r0: "stroke_ready s0" and l0: "localDrawingRef s0"
    and f0: "frames s0 = ws_sent ws @ [Begin rm (userId s) color width (getCanvasPoint e0)]"
    and b0: "moveBufferRef s0 = moveBufferRef s" and u0: "userId s0 = userId s"
    using assms
    by (simp_all add: s0_def onPointerDown_def stroke_ready_def can_send_def frames_def Let_def)
  from during_ready[OF r0 l0, of rm acts] obtain s1 m1 where
    d: "during rm acts s0 = Inr s1" "stroke_ready s1" "localDrawingRef s1"
       "userId s1 = userId s0" "frames s1 = frames s0 @ m1" "all_moves m1"
       "points_of m1 @ moveBufferRef s1 = moveBufferRef s0 @ pushed acts"
    by blast
  define s1' where "s1' = s1\<lparr>localDrawingRef := False, localLastRef := None\<rparr>"
  have r1: "stroke_ready s1'" using d(2) by (simp add: s1'_def stroke_ready_def can_send_def)
  from flush_ready[OF r1, of rm] obtain m2 where
    fl: "stroke_ready (flushMoveBuffer rm s1')" "frames (flushMoveBuffer rm s1') = frames s1' @ m2"
        "all_moves m2" "points_of m2 = moveBufferRef s1'" "moveBufferRef (flushMoveBuffer rm s1') = []"
        "userId (flushMoveBuffer rm s1') = userId s1'"
    by blast
  have u1: "userId s1' = userId s" using d(4) u0 by (simp add: s1'_def)
  have up: "frames (onPointerUp rm e1 s1) = frames (flushMoveBuffer rm s1') @ [End rm (userId s)]"
    and bu: "moveBufferRef (onPointerUp rm e1 s1) = []"
    using d(2,3) u1 fl(1,5,6)
    by (auto simp: onPointerUp_def stroke_ready_def can_send_def frames_def Let_def
        s1'_def[symmetric] split: option.splits)
  have fr: "frames s1' = frames s1" and bf: "moveBufferRef s1' = moveBufferRef s1"
    by (simp_all add: s1'_def frames_def)
  have pts: "concat (map move_pts (m1 @ m2)) = moveBufferRef s @ pushed acts"
    using d(7) fl(4) bf b0 by (simp add: points_of_def)
  have mv: "list_all (\<lambda>m. is_move m \<and> move_pts m \<noteq> []) (m1 @ m2)"
    using d(6) fl(3) by (simp add: all_moves_def)
  from d(1) up bu pts mv fl(2) fr d(5) f0 show ?thesis
    unfolding s0_def by (intro exI[of _ s1] exI[of _ "m1 @ m2"]) simp
qed

theorem stroke_points_sent_once_witness:
  "\<exists>s1 mid.
     during ''r1'' stroke_acts (onPointerDown ''r1'' ''#000'' 2 (sample 10 10) mounted) = Inr s1 \<and>
     frames (onPointerUp ''r1'' (sample 16 16) s1) =
       [Begin ''r1'' ''me'' ''#000'' 2 (10, 10)] @ mid @ [End ''r1'' ''me''] \<and>
     list_all (\<lambda>m. is_move m \<and> move_pts m \<noteq> []) mid \<and>
     concat (map move_pts mid) = [(12, 12), (14, 14), (16, 16)] \<and>
     moveBufferRef (onPointerUp ''r1'' (sample 16 16) s1) = []"
  using stroke_points_sent_once[of mounted "[]" "[]" "\<lparr>ws_readyState = OPEN, ws_sent = []\<rparr>"
      "''r1''" stroke_acts "''#000''" 2 "sample 10 10" "sample 16 16"]
  by (simp add: mounted_def stroke_acts_def sample_def getCanvasPoint_def)

text \<open>The frames of that stroke, evaluated: two points go with the timer, the third with the end.\<close>

lemma stroke_frames:
  "map_sum id (\<lambda>s1. frames (onPointerUp ''r1'' (sample 16 16) s1))
     (during ''r1'' stroke_acts (onPointerDown ''r1'' ''#000'' 2 (sample 10 10) mounted))
   = Inr [Begin ''r1'' ''me'' ''#000'' 2 (10, 10), Move ''r1'' ''me'' [(12, 12), (14, 14)],
          Move ''r1'' ''me'' [(16, 16)], End ''r1'' ''me'']"
  by (simp add: mounted_def stroke_acts_def sample_def client_eval)

section \<open>The remote stroke reconstructor\<close>

lemma applyMove_total: "\<exists>c. applyMove ctx from pts = Inr c"
  by (cases pts; cases "from") (simp_all add: applyMove_def)

text \<open>
  With a context in place, an event is handled without an exception, and the per-user
  states it leaves depend on the per-user states it found and on nothing else.
\<close>

lemma handleRemoteEvent_rel:
  assumes "ctxRef s = Some cs" and "ctxRef t = Some ct" and "remoteStrokeRef s = remoteStrokeRef t"
  shows "\<exists>s' t'. handleRemoteEvent m s = Inr s' \<and> handleRemoteEvent m t = Inr t' \<and>
                 remoteStrokeRef s' = remoteStrokeRef t' \<and> ctxRef s' \<noteq> None \<and> ctxRef t' \<noteq> None"
proof (cases m)
  case (Move r u pts)
  define f where "f = last_pt (case remoteStrokeRef t u of
                           None \<Rightarrow> \<lparr>drawing = False, last_pt = None\<rparr> | Some st0 \<Rightarrow> st0)"
  obtain c1 where c1: "applyMove cs f pts = Inr c1" using applyMove_total by blast
  obtain c2 where c2: "applyMove ct f pts = Inr c2" using applyMove_total by blast
  from assms Move c1 c2 show ?thesis
    unfolding f_def by (simp add: handleRemoteEvent_def Let_def)
qed (use assms in \<open>simp_all add: handleRemoteEvent_def Let_def\<close>)

lemma for_events_rel:
  assumes "ctxRef s = Some cs" and "ctxRef t = Some ct" and "remoteStrokeRef s = remoteStrokeRef t"
  shows "\<exists>s' t'. for_events es s = Inr s' \<and> for_events es t = Inr t' \<and>
                 remoteStrokeRef s' = remoteStrokeRef t' \<and> ctxRef s' \<noteq> None \<and> ctxRef t' \<noteq> None"
  using assms
proof (induction es arbitrary: s t cs ct)
  case Nil
  then show ?case by simp
next
  case (Cons e es)
  from handleRemoteEvent_rel[OF Cons.prems, of e] obtain s1 t1 where
    h: "handleRemoteEvent e s = Inr s1" "handleRemoteEvent e t = Inr t1"
       "remoteStrokeRef s1 = remoteStrokeRef t1" "ctxRef s1 \<noteq> None" "ctxRef t1 \<noteq> None"
    by blast
  then obtain c1 c2 where "ctxRef s1 = Some c1" "ctxRef t1 = Some c2" by auto
  from Cons.IH[OF this h(3)] h(1,2) show ?case by simp
qed

text \<open>
  C6. From any state of the component, a History message is processed without an
  exception, processing the same message again right after is too, and the per-user
  states after the second processing are those after the first.
\<close>

theorem history_replay_idempotent:
  "\<exists>s1 s2. onmessage (Some (History r es)) s = Inr s1 \<and>
           onmessage (Some (History r es)) s1 = Inr s2 \<and>
           remoteStrokeRef s2 = remoteStrokeRef s1"
proof (cases "ctxRef s")
  case None
  then show ?thesis by (simp add: onmessage_def)
next
  case (Some c)
  define s0 where "s0 = s\<lparr>remoteStrokeRef := Map.empty\<rparr>"
  have c0: "ctxRef s0 = Some c" using Some by (simp add: s0_def)
  from for_events_rel[OF c0 c0 refl, of es] obtain s1 where
    s1: "for_events es s0 = Inr s1" and n1: "ctxRef s1 \<noteq> None" by auto
  then obtain c1 where c1: "ctxRef s1 = Some c1" by auto
  define s10 where "s10 = s1\<lparr>remoteStrokeRef := Map.empty\<rparr>"
  have c10: "ctxRef s10 = Some c1" using c1 by (simp add: s10_def)
  have "remoteStrokeRef s10 = remoteStrokeRef s0" by (simp add: s10_def s0_def)
  from for_events_rel[OF c10 c0 this, of es] s1 obtain s2 where
    s2: "for_events es s10 = Inr s2" and eq: "remoteStrokeRef s2 = remoteStrokeRef s1" by auto
  from Some s1 c1 s2 eq show ?thesis
    by (simp add: onmessage_def s0_def s10_def)
qed

text \<open>
  C8. With a context in place, a Move with at least one point, for a user who has no
  entry or whose entry has no last point, is handled without an exception. It adds to the
  canvas one path, which begins at the first point, has a line to each further point in
  order, and is stroked; afterwards the user's entry is drawing, with the final point as
  its last point.
\<close>

theorem move_without_last:
  assumes "ctxRef s = Some ctx" and "pts \<noteq> []"
    and "remoteStrokeRef s u = None \<or> (\<exists>st. remoteStrokeRef s u = Some st \<and> last_pt st = None)"
  shows "\<exists>s'. handleRemoteEvent (Move r u pts) s = Inr s' \<and>
           ctxRef s' = Some (ctx @ [BeginPath, MoveTo (fst (pts ! 0)) (snd (pts ! 0))]
                                 @ map (\<lambda>p. LineTo (fst p) (snd p)) (drop 1 pts) @ [Stroke]) \<and>
           remoteStrokeRef s' u = Some \<lparr>drawing = True, last_pt = Some (last pts)\<rparr>"
  using assms
  by (cases pts) (auto simp: handleRemoteEvent_def applyMove_def final_point_def Let_def)

theorem move_without_last_witness:
  "\<exists>s'. handleRemoteEvent (Move ''r1'' ''u1'' [(12, 12), (14, 14)]) mounted = Inr s' \<and>
         ctxRef s' = Some [BeginPath, MoveTo 12 12, LineTo 14 14, Stroke] \<and>
         remoteStrokeRef s' ''u1'' = Some \<lparr>drawing = True, last_pt = Some (14, 14)\<rparr>"
  using move_without_last[of mounted "[]" "[(12, 12), (14, 14)]" "''u1''" "''r1''"]
  by (simp add: mounted_def)

subsection \<open>A Move without points\<close>

text \<open>The state \<open>drawing_u1\<close> is the one a Begin of \<open>u1\<close> at \<open>(10, 10)\<close> leaves.\<close>

lemma begin_gives_drawing_u1:
  "handleRemoteEvent (Begin ''r1'' ''u1'' ''#000'' 2 (10, 10)) mounted
     = Inr (drawing_u1\<lparr>ctxRef := Some [StrokeStyle ''#000'', LineWidth 2, BeginPath, MoveTo 10 10]\<rparr>)"
  by (simp add: drawing_u1_def mounted_def client_eval)

text \<open>Nothing is drawn for a Move without points: \<open>applyMove\<close> returns at its first test.\<close>

lemma empty_move_renders_nothing:
  "handleRemoteEvent (Move r u []) s = Inr s' \<Longrightarrow> ctxRef s' = ctxRef s"
  by (auto simp: client_eval split: option.splits)

text \<open>
  C4. The state of the user does not stay as it was. After a Begin of \<open>u1\<close> at
  \<open>(10, 10)\<close>, a Move of \<open>u1\<close> without points is handled by the branch of every Move,
  which stores \<^verbatim>\<open>pts[pts.length - 1]\<close>, here \<^verbatim>\<open>undefined\<close>, as the last point: the point
  \<open>(10, 10)\<close> is lost.
\<close>

theorem empty_move_changes_state:
  "remoteStrokeRef drawing_u1 ''u1'' = Some \<lparr>drawing = True, last_pt = Some (10, 10)\<rparr> \<and>
   remote_state_after (handleRemoteEvent (Move ''r1'' ''u1'' []) drawing_u1) ''u1''
     = Some \<lparr>drawing = True, last_pt = None\<rparr>"
  by (simp add: remote_state_after_def drawing_u1_def mounted_def client_eval)

end
